theory Spec2Isabelle
  imports Main
begin

section \<open>Python string primitives used by \<open>paths.py\<close>\<close>

text \<open>
  A Python \<open>str\<close> is modelled as a \<open>string\<close>: one \<open>char\<close> per code point, which covers
  the code points below 256. The functions below are the \<open>str\<close> methods the module calls,
  with the receiver as first argument.
\<close>

definition str_startswith :: "string \<Rightarrow> string \<Rightarrow> bool" where
  "str_startswith s pre = (take (length pre) s = pre)"

definition str_lstrip :: "string \<Rightarrow> string \<Rightarrow> string" where
  \<comment> \<open>\<open>s.lstrip(chars)\<close>: \<open>chars\<close> is a set of characters, not a prefix\<close>
  "str_lstrip s chars = dropWhile (\<lambda>c. c \<in> set chars) s"

definition str_rstrip :: "string \<Rightarrow> string \<Rightarrow> string" where
  "str_rstrip s chars = rev (dropWhile (\<lambda>c. c \<in> set chars) (rev s))"

definition str_strip :: "string \<Rightarrow> string \<Rightarrow> string" where
  "str_strip s chars = str_rstrip (str_lstrip s chars) chars"

fun str_split :: "string \<Rightarrow> char \<Rightarrow> string list" where
  "str_split [] sep = [[]]"
| "str_split (c # cs) sep =
     (if c = sep then [] # str_split cs sep
      else (case str_split cs sep of [] \<Rightarrow> [[c]] | w # ws \<Rightarrow> (c # w) # ws))"

fun str_join :: "string \<Rightarrow> string list \<Rightarrow> string" where
  "str_join sep [] = []"
| "str_join sep [x] = x"
| "str_join sep (x # y # ys) = x @ sep @ str_join sep (y # ys)"

definition is_whitespace :: "char \<Rightarrow> bool" where
  \<comment> \<open>the code points below 256 that Python counts as whitespace\<close>
  "is_whitespace c =
     (let n = (of_char c :: nat)
      in (9 \<le> n \<and> n \<le> 13) \<or> (28 \<le> n \<and> n \<le> 32) \<or> n = 133 \<or> n = 160)"

definition str_isspace :: "string \<Rightarrow> bool" where
  "str_isspace s = (s \<noteq> [] \<and> list_all is_whitespace s)"

section \<open>Bucket names: \<open>re.fullmatch(DNS_NAME_REGEX, bucket)\<close>\<close>

definition is_digit :: "char \<Rightarrow> bool" where
  "is_digit c = (let n = (of_char c :: nat) in 48 \<le> n \<and> n \<le> 57)"

definition is_dns_char :: "char \<Rightarrow> bool" where
  \<comment> \<open>the class \<open>[a-zA-Z0-9-]\<close>\<close>
  "is_dns_char c =
     (let n = (of_char c :: nat)
      in (97 \<le> n \<and> n \<le> 122) \<or> (65 \<le> n \<and> n \<le> 90) \<or> (48 \<le> n \<and> n \<le> 57) \<or> n = 45)"

definition digits_to_end :: "string \<Rightarrow> bool" where
  \<comment> \<open>\<open>[0-9]+$\<close> matches at the start of \<open>s\<close>; \<open>$\<close> is the end of the string or the
      position before a final newline\<close>
  "digits_to_end s =
     (takeWhile is_digit s \<noteq> [] \<and>
      (dropWhile is_digit s = [] \<or> dropWhile is_digit s = [char_of (10::nat)]))"

definition fullmatch_DNS_NAME_REGEX :: "string \<Rightarrow> bool" where
  \<comment> \<open>\<open>(?![0-9]+$)(?!-)[a-zA-Z0-9-]{,63}(?<!-)\<close> against the whole string\<close>
  "fullmatch_DNS_NAME_REGEX s =
     (\<not> digits_to_end s \<and>
      \<not> str_startswith s ''-'' \<and>
      list_all is_dns_char s \<and> length s \<le> 63 \<and>
      (s = [] \<or> last s \<noteq> CHR ''-''))"

section \<open>The class \<open>S3Path\<close>\<close>

datatype error =
  InvalidPathError | UnknownBucketError | InvalidBucketError | ValueError | IndexError

record S3Path =
  parts :: "string list"
  is_absolute :: bool

datatype other = StrArg string | PathArg S3Path

definition PREFIX :: string where
  "PREFIX = ''s3://''"

definition is_valid_part :: "string \<Rightarrow> bool" where
  "is_valid_part part = (part \<noteq> [] \<and> \<not> str_isspace part \<and> CHR ''/'' \<notin> set part)"

definition validate_parts :: "string list \<Rightarrow> error + unit" where
  "validate_parts ps =
     (if ps = [] \<or> list_ex (\<lambda>part. \<not> is_valid_part part) ps
      then Inl InvalidPathError else Inr ())"

definition validate_bucket :: "string \<Rightarrow> error + unit" where
  "validate_bucket bucket =
     (if \<not> fullmatch_DNS_NAME_REGEX bucket then Inl InvalidBucketError else Inr ())"

definition S3Path_init :: "string \<Rightarrow> error + S3Path" where
  "S3Path_init path =
     (if str_startswith path ''/'' then Inl InvalidPathError
      else
        let is_abs = str_startswith path PREFIX;
            path1 = (if is_abs then str_lstrip path PREFIX else path);
            ps = str_split (str_strip path1 ''/'') CHR ''/''
        in case validate_parts ps of
             Inl e \<Rightarrow> Inl e
           | Inr _ \<Rightarrow>
               if is_abs then
                 (case ps of
                    [] \<Rightarrow> Inl IndexError
                  | b # _ \<Rightarrow>
                      (case validate_bucket b of
                         Inl e \<Rightarrow> Inl e
                       | Inr _ \<Rightarrow> Inr \<lparr>parts = ps, is_absolute = is_abs\<rparr>))
               else Inr \<lparr>parts = ps, is_absolute = is_abs\<rparr>)"

definition from_parts :: "string list \<Rightarrow> bool \<Rightarrow> error + S3Path" where
  "from_parts part_list is_abs =
     (case validate_parts part_list of
        Inl e \<Rightarrow> Inl e
      | Inr _ \<Rightarrow>
          if is_abs then
            (case part_list of
               [] \<Rightarrow> Inl IndexError
             | b # _ \<Rightarrow>
                 (case validate_bucket b of
                    Inl e \<Rightarrow> Inl e
                  | Inr _ \<Rightarrow> S3Path_init (PREFIX @ str_join ''/'' part_list)))
          else S3Path_init ([] @ str_join ''/'' part_list))"

definition to_absolute :: "S3Path \<Rightarrow> error + S3Path" where
  "to_absolute self =
     (if is_absolute self then Inr self else from_parts (parts self) True)"

definition with_bucket :: "S3Path \<Rightarrow> string \<Rightarrow> error + S3Path" where
  "with_bucket self bucket =
     (let stripped_bucket = str_strip bucket ''/''
      in case validate_bucket stripped_bucket of
           Inl e \<Rightarrow> Inl e
         | Inr _ \<Rightarrow>
             if is_absolute self then
               (case parts self of
                  [] \<Rightarrow> Inl IndexError
                | _ # rest \<Rightarrow> from_parts (bucket # rest) True)
             else from_parts (stripped_bucket # parts self) True)"

definition bucket :: "S3Path \<Rightarrow> error + string" where
  "bucket self =
     (if \<not> is_absolute self then Inl UnknownBucketError
      else (case parts self of [] \<Rightarrow> Inl IndexError | b # _ \<Rightarrow> Inr b))"

definition key :: "S3Path \<Rightarrow> error + string" where
  "key self =
     (if is_absolute self then Inr (str_join ''/'' (drop 1 (parts self)))
      else Inl UnknownBucketError)"

definition name :: "S3Path \<Rightarrow> error + string" where
  "name self = (if parts self = [] then Inl IndexError else Inr (last (parts self)))"

definition parent :: "S3Path \<Rightarrow> error + S3Path option" where
  "parent self =
     (if length (parts self) = 1 then Inr None
      else (case from_parts (butlast (parts self)) (is_absolute self) of
              Inl e \<Rightarrow> Inl e
            | Inr p \<Rightarrow> Inr (Some p)))"

definition truediv :: "S3Path \<Rightarrow> other \<Rightarrow> error + S3Path" where
  "truediv self other =
     (case (case other of
              StrArg s \<Rightarrow> S3Path_init (str_lstrip s ''/'')
            | PathArg q \<Rightarrow> if is_absolute q then Inl ValueError else Inr q) of
        Inl e \<Rightarrow> Inl e
      | Inr other_path \<Rightarrow> from_parts (parts self @ parts other_path) (is_absolute self))"

definition repr :: "S3Path \<Rightarrow> string" where
  "repr self =
     (let relative_representation = str_join ''/'' (parts self)
      in if is_absolute self then PREFIX @ relative_representation
         else relative_representation)"

definition eq :: "S3Path \<Rightarrow> other \<Rightarrow> error + bool" where
  "eq self other =
     (case (case other of StrArg s \<Rightarrow> S3Path_init s | PathArg q \<Rightarrow> Inr q) of
        Inl e \<Rightarrow> Inl e
      | Inr other_path \<Rightarrow>
          Inr (parts self = parts other_path \<and> is_absolute self = is_absolute other_path))"

section \<open>Path values and their invariant\<close>

definition invariant :: "S3Path \<Rightarrow> bool" where
  "invariant p =
     (parts p \<noteq> [] \<and> list_all is_valid_part (parts p) \<and>
      (is_absolute p \<longrightarrow> fullmatch_DNS_NAME_REGEX (hd (parts p))))"

definition well_formed :: "S3Path \<Rightarrow> bool" where
  \<comment> \<open>the invariant, and what \<open>lstrip\<close> in the constructor adds to it: the bucket of an
      absolute path does not begin with a character of the prefix\<close>
  "well_formed p = (invariant p \<and> (is_absolute p \<longrightarrow> hd (hd (parts p)) \<notin> set PREFIX))"

text \<open>
  The values a caller can hold: each is returned by the constructor, by \<open>from_parts\<close>, or
  by a method called on such a value.
\<close>

inductive produced :: "S3Path \<Rightarrow> bool" where
  by_init: "S3Path_init s = Inr p \<Longrightarrow> produced p"
| by_from_parts: "from_parts ps a = Inr p \<Longrightarrow> produced p"
| by_to_absolute: "produced q \<Longrightarrow> to_absolute q = Inr p \<Longrightarrow> produced p"
| by_with_bucket: "produced q \<Longrightarrow> with_bucket q b = Inr p \<Longrightarrow> produced p"
| by_parent: "produced q \<Longrightarrow> parent q = Inr (Some p) \<Longrightarrow> produced p"
| by_truediv_str: "produced q \<Longrightarrow> truediv q (StrArg s) = Inr p \<Longrightarrow> produced p"
| by_truediv_path:
    "produced q \<Longrightarrow> produced r \<Longrightarrow> truediv q (PathArg r) = Inr p \<Longrightarrow> produced p"

text \<open>\<open>parents n p\<close> reads the property \<open>parent\<close> \<open>n\<close> times in a row, starting from \<open>p\<close>.\<close>

fun parents :: "nat \<Rightarrow> S3Path \<Rightarrow> error + S3Path option" where
  "parents 0 p = Inr (Some p)"
| "parents (Suc n) p =
     (case parent p of
        Inl e \<Rightarrow> Inl e
      | Inr None \<Rightarrow> Inr None
      | Inr (Some q) \<Rightarrow> parents n q)"

section \<open>Facts about the string primitives\<close>

lemma str_split_no_sep: "sep \<notin> set x \<Longrightarrow> str_split x sep = [x]"
  by (induction x) auto

lemma str_split_append_sep:
  "sep \<notin> set x \<Longrightarrow> str_split (x @ sep # rest) sep = x # str_split rest sep"
  by (induction x) auto

lemma str_split_join:
  "ps \<noteq> [] \<Longrightarrow> \<forall>x\<in>set ps. sep \<notin> set x \<Longrightarrow> str_split (str_join [sep] ps) sep = ps"
  by (induction "[sep]" ps rule: str_join.induct) (auto simp: str_split_no_sep str_split_append_sep)

lemma str_split_not_Nil: "str_split s sep \<noteq> []"
  by (induction s) (auto split: list.splits)

lemma hd_str_split: "hd (str_split s sep) = takeWhile (\<lambda>c. c \<noteq> sep) s"
  by (induction s) (auto split: list.splits simp: str_split_not_Nil)

lemma str_rstrip_prefix: "\<exists>ys. s = str_rstrip s chars @ ys"
proof -
  have "rev s = takeWhile (\<lambda>c. c \<in> set chars) (rev s) @ dropWhile (\<lambda>c. c \<in> set chars) (rev s)"
    by simp
  then have "s = rev (dropWhile (\<lambda>c. c \<in> set chars) (rev s)) @ rev (takeWhile (\<lambda>c. c \<in> set chars) (rev s))"
    by (metis rev_append rev_rev_ident)
  then show ?thesis unfolding str_rstrip_def by blast
qed

lemma hd_str_rstrip: "str_rstrip s chars \<noteq> [] \<Longrightarrow> hd (str_rstrip s chars) = hd s"
  using str_rstrip_prefix [of s chars] by (metis hd_append2)

lemma str_lstrip_id: "s = [] \<or> hd s \<notin> set chars \<Longrightarrow> str_lstrip s chars = s"
  by (cases s) (auto simp: str_lstrip_def)

lemma str_rstrip_id: "s = [] \<or> last s \<notin> set chars \<Longrightarrow> str_rstrip s chars = s"
  by (cases s rule: rev_cases) (auto simp: str_rstrip_def)

lemma str_strip_id:
  "s = [] \<or> (hd s \<notin> set chars \<and> last s \<notin> set chars) \<Longrightarrow> str_strip s chars = s"
  by (auto simp: str_strip_def str_lstrip_id str_rstrip_id)

lemma str_lstrip_hd: "str_lstrip s chars \<noteq> [] \<Longrightarrow> hd (str_lstrip s chars) \<notin> set chars"
  unfolding str_lstrip_def by (metis hd_dropWhile)

lemma str_lstrip_subset:
  "set chars' \<subseteq> set chars \<Longrightarrow> str_lstrip (str_lstrip s chars) chars' = str_lstrip s chars"
  by (rule str_lstrip_id) (use str_lstrip_hd [of s chars] in auto)

lemma str_join_valid:
  "ps \<noteq> [] \<Longrightarrow> list_all is_valid_part ps \<Longrightarrow>
   str_join ''/'' ps \<noteq> [] \<and> hd (str_join ''/'' ps) = hd (hd ps) \<and>
   last (str_join ''/'' ps) = last (last ps)"
  by (induction "''/''" ps rule: str_join.induct) (auto simp: is_valid_part_def)


section \<open>Facts about validation and the constructor\<close>

lemma validate_parts_Inr:
  "validate_parts ps = Inr u \<longleftrightarrow> ps \<noteq> [] \<and> list_all is_valid_part ps"
  by (auto simp: validate_parts_def list_ex_iff list_all_iff)

lemma validate_parts_Inl:
  "validate_parts ps = Inl e \<Longrightarrow> e = InvalidPathError"
  by (auto simp: validate_parts_def split: if_splits)

lemma validate_bucket_Inr: "validate_bucket b = Inr u \<longleftrightarrow> fullmatch_DNS_NAME_REGEX b"
  by (auto simp: validate_bucket_def)

lemma validate_bucket_Inl: "validate_bucket b = Inl e \<Longrightarrow> e = InvalidBucketError"
  by (auto simp: validate_bucket_def split: if_splits)

lemma str_startswith_iff: "str_startswith s pre \<longleftrightarrow> (\<exists>t. s = pre @ t)"
proof
  assume "str_startswith s pre"
  then have "s = pre @ drop (length pre) s"
    unfolding str_startswith_def by (metis append_take_drop_id)
  then show "\<exists>t. s = pre @ t" ..
next
  assume "\<exists>t. s = pre @ t"
  then show "str_startswith s pre" by (auto simp: str_startswith_def)
qed

lemma takeWhile_until_sep:
  "sep \<notin> set x \<Longrightarrow> takeWhile (\<lambda>c. c \<noteq> sep) (x @ sep # r) = x"
  by (induction x) auto

lemma takeWhile_PREFIX:
  assumes "str_startswith s PREFIX"
  shows "takeWhile (\<lambda>c. c \<noteq> CHR ''/'') s = ''s3:''"
proof -
  from assms obtain t where "s = ''s3://'' @ t"
    unfolding str_startswith_iff PREFIX_def by blast
  then show ?thesis by simp
qed

lemma join_not_PREFIX:
  assumes "ps \<noteq> []" and "list_all is_valid_part ps"
  shows "\<not> str_startswith (str_join ''/'' ps) PREFIX"
proof
  assume pre: "str_startswith (str_join ''/'' ps) PREFIX"
  from assms obtain x rest where ps: "ps = x # rest" by (cases ps) auto
  from assms ps have x: "CHR ''/'' \<notin> set x" by (simp add: is_valid_part_def)
  show False
  proof (cases rest)
    case Nil
    with ps pre obtain t where "x = ''s3://'' @ t"
      unfolding str_startswith_iff PREFIX_def by auto
    with x show False by simp
  next
    case (Cons y ys)
    let ?j = "str_join ''/'' (y # ys)"
    from assms ps Cons have j: "?j \<noteq> []" "hd ?j = hd y" "y \<noteq> []" "CHR ''/'' \<notin> set y"
      using str_join_valid [of "y # ys"] by (simp_all add: is_valid_part_def)
    have full: "str_join ''/'' ps = x @ CHR ''/'' # ?j" using ps Cons by simp
    have "takeWhile (\<lambda>c. c \<noteq> CHR ''/'') (str_join ''/'' ps) = x"
      unfolding full using x by (rule takeWhile_until_sep)
    with takeWhile_PREFIX [OF pre] have "x = ''s3:''" by simp
    with pre full obtain t where "''s3:/'' @ ?j = ''s3://'' @ t"
      unfolding str_startswith_iff PREFIX_def by auto
    then have "?j = CHR ''/'' # t" by simp
    then have "hd ?j = CHR ''/''" by simp
    with j show False by (cases y) auto
  qed
qed


lemma valid_part_ends:
  "is_valid_part x \<Longrightarrow> x \<noteq> [] \<and> hd x \<noteq> CHR ''/'' \<and> last x \<noteq> CHR ''/''"
  unfolding is_valid_part_def by (metis hd_in_set last_in_set)

lemma S3Path_init_relative:
  assumes "ps \<noteq> []" and "list_all is_valid_part ps"
  shows "S3Path_init (str_join ''/'' ps) = Inr \<lparr>parts = ps, is_absolute = False\<rparr>"
proof -
  let ?j = "str_join ''/'' ps"
  from assms have j: "?j \<noteq> []" "hd ?j = hd (hd ps)" "last ?j = last (last ps)"
    using str_join_valid by blast+
  from assms have "hd ps \<in> set ps" "last ps \<in> set ps" by simp_all
  with assms have v: "is_valid_part (hd ps)" "is_valid_part (last ps)"
    by (simp_all add: list_all_iff)
  then have e: "hd (hd ps) \<noteq> CHR ''/''" "last (last ps) \<noteq> CHR ''/''"
    by (simp_all add: valid_part_ends)
  have s1: "\<not> str_startswith ?j ''/''"
    using j e by (cases ?j) (auto simp: str_startswith_def)
  have s2: "\<not> str_startswith ?j PREFIX" using assms by (rule join_not_PREFIX)
  have s3: "str_strip ?j ''/'' = ?j" using j e by (intro str_strip_id) simp
  have s4: "str_split ?j CHR ''/'' = ps"
    using str_split_join [of ps "CHR ''/''"] assms
    by (simp add: list_all_iff is_valid_part_def)
  have s5: "validate_parts ps = Inr ()" using assms by (simp add: validate_parts_Inr)
  show ?thesis by (simp add: S3Path_init_def s1 s2 s3 s4 s5)
qed

lemma S3Path_init_absolute:
  assumes "ps \<noteq> []" and "list_all is_valid_part ps"
    and "fullmatch_DNS_NAME_REGEX (hd ps)" and "hd (hd ps) \<notin> set PREFIX"
  shows "S3Path_init (PREFIX @ str_join ''/'' ps) = Inr \<lparr>parts = ps, is_absolute = True\<rparr>"
proof -
  let ?j = "str_join ''/'' ps"
  from assms have j: "?j \<noteq> []" "hd ?j = hd (hd ps)" "last ?j = last (last ps)"
    using str_join_valid by blast+
  from assms have "hd ps \<in> set ps" "last ps \<in> set ps" by simp_all
  with assms have v: "is_valid_part (hd ps)" "is_valid_part (last ps)"
    by (simp_all add: list_all_iff)
  then have e: "hd (hd ps) \<noteq> CHR ''/''" "last (last ps) \<noteq> CHR ''/''"
    by (simp_all add: valid_part_ends)
  have s1: "\<not> str_startswith (PREFIX @ ?j) ''/''"
    by (simp add: str_startswith_def PREFIX_def)
  have s2: "str_startswith (PREFIX @ ?j) PREFIX" by (simp add: str_startswith_def)
  have "str_lstrip (PREFIX @ ?j) PREFIX = str_lstrip ?j PREFIX"
    by (simp add: str_lstrip_def PREFIX_def)
  also have "\<dots> = ?j" using j assms(4) by (intro str_lstrip_id) simp
  finally have s0: "str_lstrip (PREFIX @ ?j) PREFIX = ?j" .
  have s3: "str_strip ?j ''/'' = ?j" using j e by (intro str_strip_id) simp
  have s4: "str_split ?j CHR ''/'' = ps"
    using str_split_join [of ps "CHR ''/''"] assms
    by (simp add: list_all_iff is_valid_part_def)
  have s5: "validate_parts ps = Inr ()" using assms by (simp add: validate_parts_Inr)
  have s6: "validate_bucket (hd ps) = Inr ()" using assms by (simp add: validate_bucket_Inr)
  have s7: "(case ps of [] \<Rightarrow> Inl IndexError
             | b # _ \<Rightarrow> (case validate_bucket b of Inl e \<Rightarrow> Inl e | Inr _ \<Rightarrow> Inr X)) = Inr X"
    for X :: S3Path
    using assms(1) s6 by (cases ps) simp_all
  show ?thesis by (simp add: S3Path_init_def s0 s1 s2 s3 s4 s5 s7)
qed

lemma hd_takeWhile_nonempty: "takeWhile P xs \<noteq> [] \<Longrightarrow> hd (takeWhile P xs) = hd xs"
  by (cases xs) (auto split: if_splits)

lemma hd_parts_lstrip:
  assumes "hd (str_split (str_strip (str_lstrip s PREFIX) ''/'') CHR ''/'') \<noteq> []"
  shows "hd (hd (str_split (str_strip (str_lstrip s PREFIX) ''/'') CHR ''/'')) \<notin> set PREFIX"
proof -
  let ?t = "str_lstrip s PREFIX"
  let ?r = "str_rstrip ?t ''/''"
  have "str_lstrip ?t ''/'' = ?t" by (rule str_lstrip_subset) (simp add: PREFIX_def)
  then have r: "str_strip ?t ''/'' = ?r" by (simp add: str_strip_def)
  with assms have ne: "takeWhile (\<lambda>c. c \<noteq> CHR ''/'') ?r \<noteq> []" by (simp add: hd_str_split)
  then have "?r \<noteq> []" by auto
  then have "hd ?r = hd ?t" by (rule hd_str_rstrip)
  moreover have "?t \<noteq> []" using \<open>?r \<noteq> []\<close> by (auto simp: str_rstrip_def)
  then have "hd ?t \<notin> set PREFIX" by (rule str_lstrip_hd)
  moreover have "hd (takeWhile (\<lambda>c. c \<noteq> CHR ''/'') ?r) = hd ?r" using ne by (rule hd_takeWhile_nonempty)
  ultimately show ?thesis by (simp add: r hd_str_split)
qed

lemma S3Path_init_well_formed:
  assumes "S3Path_init s = Inr p"
  shows "well_formed p"
proof (cases "str_startswith s PREFIX")
  case True
  let ?ps = "str_split (str_strip (str_lstrip s PREFIX) ''/'') CHR ''/''"
  from assms True have v: "validate_parts ?ps = Inr ()"
    and b: "validate_bucket (hd ?ps) = Inr ()"
    and p: "p = \<lparr>parts = ?ps, is_absolute = True\<rparr>"
    by (auto simp: S3Path_init_def Let_def split: if_splits sum.splits list.splits)
  from v have ok: "?ps \<noteq> []" "list_all is_valid_part ?ps" by (simp_all add: validate_parts_Inr)
  then have "is_valid_part (hd ?ps)" by (simp add: list_all_iff)
  then have "hd ?ps \<noteq> []" by (simp add: is_valid_part_def)
  then have "hd (hd ?ps) \<notin> set PREFIX" by (rule hd_parts_lstrip)
  with ok b show ?thesis
    unfolding p well_formed_def invariant_def by (simp add: validate_bucket_Inr)
next
  case False
  let ?ps = "str_split (str_strip s ''/'') CHR ''/''"
  from assms False have v: "validate_parts ?ps = Inr ()"
    and p: "p = \<lparr>parts = ?ps, is_absolute = False\<rparr>"
    by (auto simp: S3Path_init_def Let_def split: if_splits sum.splits)
  from v have ok: "?ps \<noteq> []" "list_all is_valid_part ?ps" by (simp_all add: validate_parts_Inr)
  then show ?thesis unfolding p well_formed_def invariant_def by simp
qed

lemma S3Path_init_Inl:
  assumes "S3Path_init s = Inl e"
  shows "e = InvalidPathError \<or> (e = InvalidBucketError \<and> str_startswith s PREFIX)"
  using assms validate_parts_Inl validate_bucket_Inl
  by (auto simp: S3Path_init_def Let_def validate_parts_Inr split: if_splits sum.splits list.splits)

lemma well_formed_repr:
  assumes "well_formed p"
  shows "S3Path_init (repr p) = Inr p"
proof (cases "is_absolute p")
  case True
  with assms have "S3Path_init (PREFIX @ str_join ''/'' (parts p)) =
      Inr \<lparr>parts = parts p, is_absolute = True\<rparr>"
    by (intro S3Path_init_absolute) (simp_all add: well_formed_def invariant_def)
  with True show ?thesis by (simp add: repr_def)
next
  case False
  with assms have "S3Path_init (str_join ''/'' (parts p)) =
      Inr \<lparr>parts = parts p, is_absolute = False\<rparr>"
    by (intro S3Path_init_relative) (simp_all add: well_formed_def invariant_def)
  with False show ?thesis by (simp add: repr_def)
qed

lemma from_parts_well_formed:
  assumes "well_formed \<lparr>parts = ps, is_absolute = a\<rparr>"
  shows "from_parts ps a = Inr \<lparr>parts = ps, is_absolute = a\<rparr>"
proof -
  from assms have ok: "ps \<noteq> []" "list_all is_valid_part ps"
    and b: "a \<longrightarrow> fullmatch_DNS_NAME_REGEX (hd ps)"
    by (simp_all add: well_formed_def invariant_def)
  have v: "validate_parts ps = Inr ()" using ok by (simp add: validate_parts_Inr)
  from ok obtain x rest where ps: "ps = x # rest" by (cases ps) auto
  have "from_parts ps a = S3Path_init (repr \<lparr>parts = ps, is_absolute = a\<rparr>)"
    using b v unfolding ps by (simp add: from_parts_def repr_def validate_bucket_def)
  with well_formed_repr [OF assms] show ?thesis by simp
qed

lemma from_parts_Inr:
  "from_parts ps a = Inr p \<Longrightarrow> \<exists>s. S3Path_init s = Inr p"
  by (auto simp: from_parts_def split: sum.splits if_splits list.splits)

lemma from_parts_Inl:
  "from_parts ps a = Inl e \<Longrightarrow> e = InvalidPathError \<or> e = InvalidBucketError"
  using validate_parts_Inl validate_bucket_Inl S3Path_init_Inl
  by (fastforce simp: from_parts_def validate_parts_Inr split: sum.splits if_splits list.splits)

lemma produced_parsed: "produced p \<Longrightarrow> \<exists>s. S3Path_init s = Inr p"
proof (induction rule: produced.induct)
  case (by_init s p)
  then show ?case by blast
next
  case (by_from_parts ps a p)
  then show ?case by (rule from_parts_Inr)
next
  case (by_to_absolute q p)
  then show ?case by (auto simp: to_absolute_def split: if_splits dest: from_parts_Inr)
next
  case (by_with_bucket q b p)
  then show ?case
    by (auto simp: with_bucket_def Let_def split: sum.splits if_splits list.splits
        dest: from_parts_Inr)
next
  case (by_parent q p)
  then show ?case by (auto simp: parent_def split: sum.splits if_splits dest: from_parts_Inr)
next
  case (by_truediv_str q s p)
  then show ?case by (auto simp: truediv_def split: sum.splits dest: from_parts_Inr)
next
  case (by_truediv_path q r p)
  then show ?case by (auto simp: truediv_def split: sum.splits if_splits dest: from_parts_Inr)
qed

lemma produced_well_formed: "produced p \<Longrightarrow> well_formed p"
  using produced_parsed S3Path_init_well_formed by blast

section \<open>Facts about joining and parents\<close>

lemma str_lstrip_replicate:
  "c \<in> set chars \<Longrightarrow> str_lstrip (replicate k c @ t) chars = str_lstrip t chars"
  by (induction k) (auto simp: str_lstrip_def)

lemma well_formed_append:
  assumes "well_formed p" and "well_formed q"
  shows "well_formed \<lparr>parts = parts p @ parts q, is_absolute = is_absolute p\<rparr>"
  using assms by (auto simp: well_formed_def invariant_def)

lemma truediv_str_parsed:
  assumes "well_formed p" and "S3Path_init (str_lstrip s ''/'') = Inr q"
  shows "truediv p (StrArg s) = Inr \<lparr>parts = parts p @ parts q, is_absolute = is_absolute p\<rparr>"
proof -
  from assms(2) have "well_formed q" by (rule S3Path_init_well_formed)
  with assms(1) have "well_formed \<lparr>parts = parts p @ parts q, is_absolute = is_absolute p\<rparr>"
    by (rule well_formed_append)
  then show ?thesis using assms(2) by (simp add: truediv_def from_parts_well_formed)
qed

lemma well_formed_butlast:
  assumes "well_formed p" and "2 \<le> length (parts p)"
  shows "well_formed \<lparr>parts = butlast (parts p), is_absolute = is_absolute p\<rparr>"
proof -
  from assms(2) obtain x y rest where ps: "parts p = x # y # rest"
    by (cases "parts p"; cases "tl (parts p)") auto
  have "set (butlast (parts p)) \<subseteq> set (parts p)" by (auto dest: in_set_butlastD)
  with assms(1) have "list_all is_valid_part (butlast (parts p))"
    by (auto simp: well_formed_def invariant_def list_all_iff)
  with assms(1) show ?thesis by (auto simp: well_formed_def invariant_def ps)
qed

lemma parent_well_formed:
  assumes "well_formed p" and "2 \<le> length (parts p)"
  shows "parent p = Inr (Some \<lparr>parts = butlast (parts p), is_absolute = is_absolute p\<rparr>)"
  using assms(2) well_formed_butlast [OF assms]
  by (simp add: parent_def from_parts_well_formed)

lemma parents_well_formed:
  "well_formed p \<Longrightarrow> k < length (parts p) \<Longrightarrow>
   parents k p =
     Inr (Some \<lparr>parts = take (length (parts p) - k) (parts p), is_absolute = is_absolute p\<rparr>)"
proof (induction k arbitrary: p)
  case 0
  then show ?case by simp
next
  case (Suc k)
  let ?q = "\<lparr>parts = butlast (parts p), is_absolute = is_absolute p\<rparr>"
  from Suc.prems have len: "2 \<le> length (parts p)" by simp
  with Suc.prems have par: "parent p = Inr (Some ?q)" and wf: "well_formed ?q"
    by (simp_all add: parent_well_formed well_formed_butlast)
  from Suc.prems have "k < length (parts ?q)" by simp
  with wf have "parents k ?q =
      Inr (Some \<lparr>parts = take (length (parts ?q) - k) (parts ?q), is_absolute = is_absolute ?q\<rparr>)"
    by (rule Suc.IH)
  moreover have "take (length (parts p) - Suc k) (butlast (parts p)) =
      take (length (parts p) - Suc k) (parts p)"
    by (simp add: butlast_conv_take)
  ultimately show ?case by (simp add: par)
qed

lemma S3Path_init_no_leading_slash:
  assumes "S3Path_init t = Inr q"
  shows "str_lstrip t ''/'' = t"
proof -
  from assms have "\<not> str_startswith t ''/''"
    by (auto simp: S3Path_init_def split: if_splits)
  then have "t = [] \<or> hd t \<notin> set ''/''"
    by (cases t) (auto simp: str_startswith_def)
  then show ?thesis by (rule str_lstrip_id)
qed

section \<open>The claims\<close>

text \<open>
  Claim C1. \<open>from_parts(S, a)\<close> is to return a path whose parts are \<open>S\<close> and whose flag
  is \<open>a\<close> for every valid \<open>S\<close>. The code departs from this: the constructor removes the
  prefix with \<open>lstrip\<close>, which takes a set of characters, so with the valid bucket \<open>some\<close>
  and the flag set the path that comes back has the parts \<open>[ome]\<close>.
\<close>

theorem from_parts_strips_bucket_letters:
  "list_all is_valid_part [''some''] \<and> fullmatch_DNS_NAME_REGEX ''some'' \<and>
   from_parts [''some''] True = Inr \<lparr>parts = [''ome''], is_absolute = True\<rparr>"
  by code_simp

text \<open>
  Claim C2. \<open>to_absolute\<close> on a relative path is to keep the segments and make the
  first one the bucket. The code departs from this: parsing \<open>some/relative/path\<close> and
  converting it gives the segments \<open>[ome, relative, path]\<close> and the bucket \<open>ome\<close>, through
  the same \<open>lstrip\<close> call as in C1.
\<close>

theorem to_absolute_strips_bucket_letters:
  "S3Path_init ''some/relative/path'' =
     Inr \<lparr>parts = [''some'', ''relative'', ''path''], is_absolute = False\<rparr> \<and>
   to_absolute \<lparr>parts = [''some'', ''relative'', ''path''], is_absolute = False\<rparr> =
     Inr \<lparr>parts = [''ome'', ''relative'', ''path''], is_absolute = True\<rparr> \<and>
   bucket \<lparr>parts = [''ome'', ''relative'', ''path''], is_absolute = True\<rparr> = Inr ''ome''"
  by code_simp

text \<open>
  Claim C3 says that joining a string strips one leading slash only, so that a string
  with two leading slashes cannot be joined. The code calls
  \<open>lstrip("/")\<close>, which removes every leading slash: joining \<open>//file.txt\<close> succeeds.
\<close>

theorem truediv_double_slash_counterexample:
  "truediv \<lparr>parts = [''bucket'', ''folder''], is_absolute = True\<rparr> (StrArg ''//file.txt'') =
     Inr \<lparr>parts = [''bucket'', ''folder'', ''file.txt''], is_absolute = True\<rparr>"
  by code_simp

text \<open>
  Claim C3, as the code has it: for every path \<open>p\<close>, the join \<open>p / s\<close> strips all leading
  slashes of \<open>s\<close> and parses the remainder with the constructor. So a string with any
  number \<open>k\<close> of slashes in front of \<open>t\<close> joins exactly as \<open>t\<close> does, and when \<open>t\<close> parses to
  a path \<open>q\<close> the join succeeds with the segments of \<open>p\<close> followed by those of \<open>q\<close> and the
  flag of \<open>p\<close>.
\<close>

theorem truediv_strips_all_slashes:
  "truediv p (StrArg (replicate k CHR ''/'' @ t)) = truediv p (StrArg t) \<and>
   (produced p \<and> S3Path_init t = Inr q \<longrightarrow>
      truediv p (StrArg (replicate k CHR ''/'' @ t)) =
        Inr \<lparr>parts = parts p @ parts q, is_absolute = is_absolute p\<rparr>)"
proof -
  have strip: "str_lstrip (replicate k CHR ''/'' @ t) ''/'' = str_lstrip t ''/''"
    by (rule str_lstrip_replicate) simp
  then have same: "truediv p (StrArg (replicate k CHR ''/'' @ t)) = truediv p (StrArg t)"
    by (simp add: truediv_def)
  have "truediv p (StrArg t) = Inr \<lparr>parts = parts p @ parts q, is_absolute = is_absolute p\<rparr>"
    if "produced p" and "S3Path_init t = Inr q"
    using that by (intro truediv_str_parsed produced_well_formed)
      (simp_all add: S3Path_init_no_leading_slash)
  with same show ?thesis by simp
qed

theorem truediv_strips_all_slashes_witness:
  "produced \<lparr>parts = [''bucket'', ''folder''], is_absolute = True\<rparr> \<and>
   S3Path_init ''file.txt'' = Inr \<lparr>parts = [''file.txt''], is_absolute = False\<rparr> \<and>
   truediv \<lparr>parts = [''bucket'', ''folder''], is_absolute = True\<rparr> (StrArg ''//file.txt'') =
     Inr \<lparr>parts = [''bucket'', ''folder'', ''file.txt''], is_absolute = True\<rparr>"
proof -
  have i: "S3Path_init ''s3://bucket/folder'' =
      Inr \<lparr>parts = [''bucket'', ''folder''], is_absolute = True\<rparr>"
    by code_simp
  have h: "produced \<lparr>parts = [''bucket'', ''folder''], is_absolute = True\<rparr>"
    using i by (rule by_init)
  have j: "S3Path_init ''file.txt'' = Inr \<lparr>parts = [''file.txt''], is_absolute = False\<rparr>"
    by code_simp
  from h j have "truediv \<lparr>parts = [''bucket'', ''folder''], is_absolute = True\<rparr>
       (StrArg (replicate (Suc (Suc 0)) CHR ''/'' @ ''file.txt'')) =
     Inr \<lparr>parts = parts \<lparr>parts = [''bucket'', ''folder''], is_absolute = True\<rparr> @
                  parts \<lparr>parts = [''file.txt''], is_absolute = False\<rparr>,
          is_absolute = is_absolute \<lparr>parts = [''bucket'', ''folder''], is_absolute = True\<rparr>\<rparr>"
    using truediv_strips_all_slashes [of "\<lparr>parts = [''bucket'', ''folder''], is_absolute = True\<rparr>"
        "Suc (Suc 0)" "''file.txt''" "\<lparr>parts = [''file.txt''], is_absolute = False\<rparr>"]
    by blast
  with h j show ?thesis by simp
qed

text \<open>
  Claim C4. Every path value that parsing, \<open>from_parts\<close>, \<open>to_absolute\<close>,
  \<open>with_bucket\<close>, \<open>parent\<close> or a join returns satisfies the invariant: the parts are not
  empty, each part is non-empty, not whitespace only and free of slashes, and the first
  part of an absolute path matches the bucket expression.
\<close>

theorem produced_invariant: "produced p \<Longrightarrow> invariant p"
  using produced_well_formed [of p] by (simp add: well_formed_def)

theorem produced_invariant_witness:
  "produced \<lparr>parts = [''bucket'', ''folder''], is_absolute = True\<rparr> \<and>
   invariant \<lparr>parts = [''bucket'', ''folder''], is_absolute = True\<rparr>"
proof -
  have i: "S3Path_init ''s3://bucket/folder/'' =
      Inr \<lparr>parts = [''bucket'', ''folder''], is_absolute = True\<rparr>"
    by code_simp
  have h: "produced \<lparr>parts = [''bucket'', ''folder''], is_absolute = True\<rparr>"
    using i by (rule by_init)
  show ?thesis using h produced_invariant [OF h] by simp
qed

text \<open>
  Claim C5. On every relative path, reading \<open>bucket\<close> and reading \<open>key\<close> both raise
  \<open>UnknownBucketError\<close>. On every absolute path neither raises: \<open>bucket\<close> is the first
  part and \<open>key\<close> is the remaining parts joined by slashes.
\<close>

theorem bucket_key_by_absoluteness:
  "produced p \<Longrightarrow>
   (\<not> is_absolute p \<longrightarrow>
      bucket p = Inl UnknownBucketError \<and> key p = Inl UnknownBucketError) \<and>
   (is_absolute p \<longrightarrow>
      parts p \<noteq> [] \<and> bucket p = Inr (parts p ! 0) \<and>
      key p = Inr (str_join ''/'' (drop 1 (parts p))))"
proof -
  assume "produced p"
  then have "parts p \<noteq> []"
    using produced_well_formed [of p] by (simp add: well_formed_def invariant_def)
  then show ?thesis by (cases "parts p") (simp_all add: bucket_def key_def)
qed

theorem bucket_key_by_absoluteness_witness:
  "produced \<lparr>parts = [''some'', ''relative'', ''path''], is_absolute = False\<rparr> \<and>
   bucket \<lparr>parts = [''some'', ''relative'', ''path''], is_absolute = False\<rparr> =
     Inl UnknownBucketError \<and>
   key \<lparr>parts = [''some'', ''relative'', ''path''], is_absolute = False\<rparr> =
     Inl UnknownBucketError \<and>
   produced \<lparr>parts = [''bucket'', ''folder'', ''file.txt''], is_absolute = True\<rparr> \<and>
   bucket \<lparr>parts = [''bucket'', ''folder'', ''file.txt''], is_absolute = True\<rparr> =
     Inr ''bucket'' \<and>
   key \<lparr>parts = [''bucket'', ''folder'', ''file.txt''], is_absolute = True\<rparr> =
     Inr ''folder/file.txt''"
proof -
  have "S3Path_init ''some/relative/path'' =
      Inr \<lparr>parts = [''some'', ''relative'', ''path''], is_absolute = False\<rparr>"
    by code_simp
  then have r: "produced \<lparr>parts = [''some'', ''relative'', ''path''], is_absolute = False\<rparr>"
    by (rule by_init)
  have "S3Path_init ''s3://bucket/folder/file.txt'' =
      Inr \<lparr>parts = [''bucket'', ''folder'', ''file.txt''], is_absolute = True\<rparr>"
    by code_simp
  then have a: "produced \<lparr>parts = [''bucket'', ''folder'', ''file.txt''], is_absolute = True\<rparr>"
    by (rule by_init)
  show ?thesis
    using r a bucket_key_by_absoluteness [OF r] bucket_key_by_absoluteness [OF a] by simp
qed

text \<open>
  Claim C6. A path of one segment has no parent. A path of \<open>N \<ge> 2\<close> segments has as
  parent the path with the same flag and the segments without the last one; reading
  \<open>parent\<close> \<open>k < N\<close> times in a row leaves the first \<open>N - k\<close> segments, so that after exactly
  \<open>N - 1\<close> times one segment is left.
\<close>

theorem parent_drops_last_segment:
  "produced p \<Longrightarrow>
   (length (parts p) = 1 \<longrightarrow> parent p = Inr None) \<and>
   (2 \<le> length (parts p) \<longrightarrow>
      parent p = Inr (Some \<lparr>parts = butlast (parts p), is_absolute = is_absolute p\<rparr>)) \<and>
   (k < length (parts p) \<longrightarrow>
      parents k p =
        Inr (Some \<lparr>parts = take (length (parts p) - k) (parts p),
                   is_absolute = is_absolute p\<rparr>)) \<and>
   parents (length (parts p) - 1) p =
     Inr (Some \<lparr>parts = [hd (parts p)], is_absolute = is_absolute p\<rparr>)"
proof -
  assume "produced p"
  then have wf: "well_formed p" by (rule produced_well_formed)
  then have ne: "parts p \<noteq> []" by (simp add: well_formed_def invariant_def)
  have one: "length (parts p) = 1 \<longrightarrow> parent p = Inr None" by (simp add: parent_def)
  have two: "2 \<le> length (parts p) \<longrightarrow>
      parent p = Inr (Some \<lparr>parts = butlast (parts p), is_absolute = is_absolute p\<rparr>)"
    using wf by (simp add: parent_well_formed)
  have many: "parents k p =
      Inr (Some \<lparr>parts = take (length (parts p) - k) (parts p), is_absolute = is_absolute p\<rparr>)"
    if "k < length (parts p)" for k
    using wf that by (rule parents_well_formed)
  from ne have "length (parts p) - 1 < length (parts p)" by simp
  from many [OF this] ne have
    "parents (length (parts p) - 1) p =
       Inr (Some \<lparr>parts = [hd (parts p)], is_absolute = is_absolute p\<rparr>)"
    by (cases "parts p") simp_all
  with one two many show ?thesis by blast
qed

theorem parent_drops_last_segment_witness:
  "produced \<lparr>parts = [''bucket'', ''folder'', ''file.txt''], is_absolute = True\<rparr> \<and>
   parent \<lparr>parts = [''bucket'', ''folder'', ''file.txt''], is_absolute = True\<rparr> =
     Inr (Some \<lparr>parts = [''bucket'', ''folder''], is_absolute = True\<rparr>) \<and>
   parents 2 \<lparr>parts = [''bucket'', ''folder'', ''file.txt''], is_absolute = True\<rparr> =
     Inr (Some \<lparr>parts = [''bucket''], is_absolute = True\<rparr>) \<and>
   produced \<lparr>parts = [''bucket''], is_absolute = True\<rparr> \<and>
   parent \<lparr>parts = [''bucket''], is_absolute = True\<rparr> = Inr None"
proof -
  have "S3Path_init ''s3://bucket/folder/file.txt'' =
      Inr \<lparr>parts = [''bucket'', ''folder'', ''file.txt''], is_absolute = True\<rparr>"
    by code_simp
  then have a: "produced \<lparr>parts = [''bucket'', ''folder'', ''file.txt''], is_absolute = True\<rparr>"
    by (rule by_init)
  have "S3Path_init ''s3://bucket/'' = Inr \<lparr>parts = [''bucket''], is_absolute = True\<rparr>"
    by code_simp
  then have b: "produced \<lparr>parts = [''bucket''], is_absolute = True\<rparr>"
    by (rule by_init)
  show ?thesis
    using a b parent_drops_last_segment [OF a, of 2] parent_drops_last_segment [OF b, of 0]
    by simp
qed

text \<open>
  Claim C7. Joining an absolute path value onto any path raises \<open>ValueError\<close>; no
  path is returned.
\<close>

theorem truediv_absolute_path_raises:
  "is_absolute q \<Longrightarrow> truediv p (PathArg q) = Inl ValueError"
  by (simp add: truediv_def)

theorem truediv_absolute_path_raises_witness:
  "is_absolute \<lparr>parts = [''bucket'', ''x''], is_absolute = True\<rparr> \<and>
   truediv \<lparr>parts = [''folder''], is_absolute = False\<rparr>
     (PathArg \<lparr>parts = [''bucket'', ''x''], is_absolute = True\<rparr>) = Inl ValueError"
  using truediv_absolute_path_raises
    [of "\<lparr>parts = [''bucket'', ''x''], is_absolute = True\<rparr>"
        "\<lparr>parts = [''folder''], is_absolute = False\<rparr>"]
  by simp

text \<open>
  Claim C8. When a string parses to a path, rendering that path and parsing the
  rendering gives the same path again, and the equality check between the two (with the
  rendering passed as a path or as a string) returns \<open>True\<close>.
\<close>

theorem parse_repr_parse:
  "S3Path_init s = Inr p \<Longrightarrow>
   S3Path_init (repr p) = Inr p \<and> eq p (PathArg p) = Inr True \<and>
   eq p (StrArg (repr p)) = Inr True"
  using S3Path_init_well_formed [of s p] well_formed_repr [of p]
  by (simp add: eq_def)

theorem parse_repr_parse_witness:
  "S3Path_init ''s3://bucket/folder/'' =
     Inr \<lparr>parts = [''bucket'', ''folder''], is_absolute = True\<rparr> \<and>
   repr \<lparr>parts = [''bucket'', ''folder''], is_absolute = True\<rparr> = ''s3://bucket/folder'' \<and>
   S3Path_init ''s3://bucket/folder'' =
     Inr \<lparr>parts = [''bucket'', ''folder''], is_absolute = True\<rparr>"
proof -
  have i: "S3Path_init ''s3://bucket/folder/'' =
      Inr \<lparr>parts = [''bucket'', ''folder''], is_absolute = True\<rparr>"
    by code_simp
  have r: "repr \<lparr>parts = [''bucket'', ''folder''], is_absolute = True\<rparr> = ''s3://bucket/folder''"
    by code_simp
  show ?thesis using i r parse_repr_parse [OF i] by simp
qed

text \<open>
  Claim C9. When a string, once its leading slashes are removed, parses as an
  absolute path \<open>q\<close>, joining it onto a path \<open>p\<close> raises nothing: the result has the
  segments of \<open>p\<close> followed by those of \<open>q\<close>, and the flag of \<open>p\<close>.
\<close>

theorem truediv_absolute_string_appends:
  "produced p \<Longrightarrow> S3Path_init (str_lstrip s ''/'') = Inr q \<Longrightarrow> is_absolute q \<Longrightarrow>
   truediv p (StrArg s) = Inr \<lparr>parts = parts p @ parts q, is_absolute = is_absolute p\<rparr>"
  by (intro truediv_str_parsed produced_well_formed)

theorem truediv_absolute_string_appends_witness:
  "produced \<lparr>parts = [''bucket'', ''folder''], is_absolute = True\<rparr> \<and>
   S3Path_init (str_lstrip ''s3://other/x'' ''/'') =
     Inr \<lparr>parts = [''other'', ''x''], is_absolute = True\<rparr> \<and>
   truediv \<lparr>parts = [''bucket'', ''folder''], is_absolute = True\<rparr> (StrArg ''s3://other/x'') =
     Inr \<lparr>parts = [''bucket'', ''folder'', ''other'', ''x''], is_absolute = True\<rparr>"
proof -
  have "S3Path_init ''s3://bucket/folder'' =
      Inr \<lparr>parts = [''bucket'', ''folder''], is_absolute = True\<rparr>"
    by code_simp
  then have h: "produced \<lparr>parts = [''bucket'', ''folder''], is_absolute = True\<rparr>"
    by (rule by_init)
  have j: "S3Path_init (str_lstrip ''s3://other/x'' ''/'') =
      Inr \<lparr>parts = [''other'', ''x''], is_absolute = True\<rparr>"
    by code_simp
  show ?thesis using h j truediv_absolute_string_appends [OF h j] by simp
qed

text \<open>
  Claim C10. Comparing a path with a string that does not parse raises the
  constructor's error instead of returning \<open>False\<close>: \<open>InvalidPathError\<close>, or
  \<open>InvalidBucketError\<close> for a string with the prefix and an invalid bucket. The empty
  string and every string that starts with a slash give \<open>InvalidPathError\<close>.
\<close>

theorem eq_unparsable_string_raises:
  "(S3Path_init s = Inl e \<longrightarrow>
      eq p (StrArg s) = Inl e \<and>
      (e = InvalidPathError \<or> (e = InvalidBucketError \<and> str_startswith s PREFIX))) \<and>
   (s = [] \<or> str_startswith s ''/'' \<longrightarrow> eq p (StrArg s) = Inl InvalidPathError)"
proof -
  have "S3Path_init [] = Inl InvalidPathError" by code_simp
  moreover have "S3Path_init s = Inl InvalidPathError" if "str_startswith s ''/''"
    using that by (simp add: S3Path_init_def)
  ultimately show ?thesis using S3Path_init_Inl [of s e] by (auto simp: eq_def)
qed

theorem eq_unparsable_string_raises_witness:
  "S3Path_init ''s3://bucket^with_invalid*name/folder/file.txt'' = Inl InvalidBucketError \<and>
   eq \<lparr>parts = [''folder''], is_absolute = False\<rparr>
     (StrArg ''s3://bucket^with_invalid*name/folder/file.txt'') = Inl InvalidBucketError \<and>
   str_startswith ''///'' ''/'' \<and>
   eq \<lparr>parts = [''folder''], is_absolute = False\<rparr> (StrArg ''///'') = Inl InvalidPathError"
proof -
  have i: "S3Path_init ''s3://bucket^with_invalid*name/folder/file.txt'' = Inl InvalidBucketError"
    by code_simp
  have j: "str_startswith ''///'' ''/''" by code_simp
  show ?thesis
    using i j
      eq_unparsable_string_raises [of "''s3://bucket^with_invalid*name/folder/file.txt''"
        InvalidBucketError "\<lparr>parts = [''folder''], is_absolute = False\<rparr>"]
      eq_unparsable_string_raises [of "''///''" InvalidPathError
        "\<lparr>parts = [''folder''], is_absolute = False\<rparr>"]
    by simp
qed

end
